theory Spec2Isabelle
  imports
    Main
    "HOL-Library.Multiset"
    "HOL-Library.List_Lexorder"
    "HOL-Library.Char_ord"
begin

section \<open>The popup of the extensions manager (src/scripts/popup.js)\<close>

text \<open>
  The popup is one class, \<^verbatim>\<open>ExtensionManager\<close>. Its methods are translated one by one,
  under their own names. Mutation of \<^verbatim>\<open>this\<close>, of the document and of local storage is
  explicit state passing on one record; calls into the browser (\<^verbatim>\<open>chrome.management.setEnabled\<close>,
  \<^verbatim>\<open>localStorage.setItem\<close>) are appended to a log, and the completion callbacks that
  \<^verbatim>\<open>oneKeyDisable\<close> hands to the browser are returned as data, to be run later.
  What the browser supplies (the extension's own identifier, the message catalogue, the
  collation behind \<^verbatim>\<open>localeCompare\<close>) is a parameter.
\<close>

subsection \<open>Records of the platform\<close>

record IconInfo =
  icon_size :: int
  icon_url :: string

text \<open>
  An entry of \<^verbatim>\<open>chrome.management.getAll\<close>. \<^verbatim>\<open>shortName\<close> and \<^verbatim>\<open>icons\<close> may be
  absent (\<^verbatim>\<open>undefined\<close>), which is \<open>None\<close>.
\<close>

record ExtensionInfo =
  item_id :: string
  item_name :: string
  item_shortName :: "string option"
  item_enabled :: bool
  item_type :: string
  item_icons :: "IconInfo list option"

record chrome =
  runtime_id :: string
  getMessage :: "string \<Rightarrow> string"
  localeCompare :: "string \<Rightarrow> string \<Rightarrow> string \<Rightarrow> int"

subsection \<open>JavaScript sets, strings and arrays\<close>

text \<open>
  A JavaScript \<^verbatim>\<open>Set\<close> keeps its members in insertion order and \<^verbatim>\<open>Array.from\<close> lists
  them in that order: a set is the list of its members, \<^verbatim>\<open>add\<close> appends a new member
  and leaves the set alone when the member is there already.
\<close>

definition Set_add :: "'a list \<Rightarrow> 'a \<Rightarrow> 'a list" where
  "Set_add s x = (if x \<in> set s then s else s @ [x])"

definition Set_has :: "'a list \<Rightarrow> 'a \<Rightarrow> bool" where
  "Set_has s x = (x \<in> set s)"

definition Set_new :: "'a list \<Rightarrow> 'a list" where
  "Set_new xs = foldl Set_add [] xs"

text \<open>\<^verbatim>\<open>Array.prototype.join\<close> and \<^verbatim>\<open>String.prototype.split\<close> with a one-character separator.\<close>

fun js_join :: "string \<Rightarrow> string list \<Rightarrow> string" where
  "js_join sep [] = []"
| "js_join sep [x] = x"
| "js_join sep (x # y # ys) = x @ sep @ js_join sep (y # ys)"

fun js_split :: "char \<Rightarrow> string \<Rightarrow> string list" where
  "js_split c [] = [[]]"
| "js_split c (x # xs) =
     (if x = c then [] # js_split c xs
      else (case js_split c xs of
              [] \<Rightarrow> [[x]]
            | w # ws \<Rightarrow> (x # w) # ws))"

subsection \<open>State\<close>

datatype call = SetEnabled string bool | SetItem string

datatype element = H1 | Li nat | Body

text \<open>What \<^verbatim>\<open>renderExtensionState\<close> writes on a list item.\<close>

record li =
  tabIndex :: int
  img_alt :: string
  img_src :: string
  span_textContent :: string
  title :: string
  dataset_enabled :: string

text \<open>
  The fields of \<^verbatim>\<open>this\<close>, then the part of the browser the popup reads and writes: the
  children of \<^verbatim>\<open>nodes.ul\<close>, each paired with its entry in \<^verbatim>\<open>allExtIdMap\<close>; the text of
  \<^verbatim>\<open>nodes.h1\<close>; the value stored under \<^verbatim>\<open>Config.deiKey\<close> (\<open>None\<close> when the key is
  absent); \<^verbatim>\<open>document.activeElement\<close>; and the log of calls made so far.
\<close>

record ExtensionManager =
  partition_flag :: bool
  maxIconSize :: int
  excludeType :: "string list"
  eidDisabledSet :: "string list"
  ul_children :: "(li \<times> ExtensionInfo) list"
  h1_textContent :: string
  localStorage_dei :: "string option"
  activeElement :: element
  calls :: "call list"

subsection \<open>Persistence\<close>

definition readFromLocal :: "ExtensionManager \<Rightarrow> ExtensionManager" where
  "readFromLocal this =
     (let data = localStorage_dei this;
          list = (case data of
                    None \<Rightarrow> []
                  | Some d \<Rightarrow> if d \<noteq> [] then js_split (CHR '','') d else [])
      in this\<lparr>eidDisabledSet := foldl Set_add (eidDisabledSet this) list\<rparr>)"

definition writeToLocal :: "ExtensionManager \<Rightarrow> ExtensionManager" where
  "writeToLocal this =
     this\<lparr>localStorage_dei := Some (js_join '','' (eidDisabledSet this)),
          calls := calls this @ [SetItem (js_join '','' (eidDisabledSet this))]\<rparr>"

definition ExtensionManager_new :: "string list \<Rightarrow> string option \<Rightarrow> ExtensionManager" where
  \<comment> \<open>the constructor, in a browser whose local storage holds \<open>stored\<close> under the key\<close>
  "ExtensionManager_new excludeType0 stored =
     \<lparr>partition_flag = False, maxIconSize = 64, excludeType = excludeType0,
      eidDisabledSet = [], ul_children = [], h1_textContent = [],
      localStorage_dei = stored, activeElement = Body, calls = []\<rparr>"

subsection \<open>Sorting\<close>

text \<open>
  \<^verbatim>\<open>Array.prototype.sort\<close> with a comparison function is the browser's. ECMAScript
  requires it to be stable and, for a consistent comparison function, to return the
  elements in non-decreasing order; there is one such arrangement, and insertion from
  the right computes it. An element goes before the first element it does not exceed.
\<close>

fun insort_cmp :: "('a \<Rightarrow> 'a \<Rightarrow> int) \<Rightarrow> 'a \<Rightarrow> 'a list \<Rightarrow> 'a list" where
  "insort_cmp f x [] = [x]"
| "insort_cmp f x (y # ys) = (if f x y \<le> 0 then x # y # ys else y # insort_cmp f x ys)"

definition Array_sort :: "('a \<Rightarrow> 'a \<Rightarrow> int) \<Rightarrow> 'a list \<Rightarrow> 'a list" where
  "Array_sort f xs = foldr (insort_cmp f) xs []"

definition defSortFunction :: "chrome \<Rightarrow> ExtensionInfo \<Rightarrow> ExtensionInfo \<Rightarrow> int" where
  "defSortFunction c prev next = localeCompare c (item_name prev) (item_name next) ''en-US''"

definition sortByASCII ::
  "chrome \<Rightarrow> ExtensionManager \<Rightarrow> ExtensionInfo list \<Rightarrow> ExtensionInfo list" where
  "sortByASCII c this list =
     (if partition_flag this
      then Array_sort (defSortFunction c) (filter item_enabled list)
           @ Array_sort (defSortFunction c) (filter (\<lambda>item. \<not> item_enabled item) list)
      else Array_sort (defSortFunction c) list)"

subsection \<open>Rendering\<close>

fun icon_loop :: "int \<Rightarrow> IconInfo \<Rightarrow> IconInfo list \<Rightarrow> IconInfo" where
  "icon_loop m iconInfo [] = iconInfo"
| "icon_loop m iconInfo (icon # restIcons) =
     icon_loop m
       (if icon_size icon > icon_size iconInfo \<and> icon_size icon < m
        then \<lparr>icon_size = icon_size icon, icon_url = icon_url icon\<rparr>
        else iconInfo)
       restIcons"

definition iconInfo_of :: "ExtensionManager \<Rightarrow> ExtensionInfo \<Rightarrow> IconInfo" where
  \<comment> \<open>the value of \<^verbatim>\<open>iconInfo\<close> when \<^verbatim>\<open>renderExtensionState\<close> reads it\<close>
  "iconInfo_of this item =
     (case item_icons item of
        Some (firstIcon # restIcons) \<Rightarrow>
          icon_loop (maxIconSize this)
            \<lparr>icon_size = icon_size firstIcon, icon_url = icon_url firstIcon\<rparr> restIcons
      | _ \<Rightarrow> \<lparr>icon_size = 32,
              icon_url = ''chrome://extension-icon/'' @ item_id item @ ''/32/0''\<rparr>)"

definition label_of :: "ExtensionInfo \<Rightarrow> string" where
  \<comment> \<open>\<^verbatim>\<open>item.shortName || item.name\<close>: \<^verbatim>\<open>undefined\<close> and the empty string are falsy\<close>
  "label_of item =
     (case item_shortName item of
        None \<Rightarrow> item_name item
      | Some s \<Rightarrow> if s \<noteq> [] then s else item_name item)"

definition renderExtensionState ::
  "chrome \<Rightarrow> ExtensionManager \<Rightarrow> li \<Rightarrow> ExtensionInfo \<Rightarrow> li" where
  "renderExtensionState c this l item =
     l\<lparr>span_textContent := label_of item,
       img_alt := label_of item,
       img_src := icon_url (iconInfo_of this item)
                    @ (if item_enabled item then [] else ''?grayscale=true''),
       title := getMessage c
                  (if item_enabled item then ''disable_extension'' else ''enable_extension''),
       dataset_enabled := (if item_enabled item then ''true'' else ''false'')\<rparr>"

definition createElement_li :: li where
  "createElement_li =
     \<lparr>tabIndex = 0, img_alt = [], img_src = [], span_textContent = [],
      title = [], dataset_enabled = []\<rparr>"

definition renderExtensions ::
  "chrome \<Rightarrow> ExtensionInfo list \<Rightarrow> ExtensionManager \<Rightarrow> ExtensionManager" where
  \<comment> \<open>the callback of \<^verbatim>\<open>getAll\<close>, run on the list the browser delivers; the old
      nodes leave the document, so whichever of them had the focus loses it\<close>
  "renderExtensions c list this =
     this\<lparr>ul_children :=
            map (\<lambda>item. (renderExtensionState c this createElement_li item, item))
              (filter (\<lambda>item. \<not> (item_id item = runtime_id c
                                   \<or> Set_has (excludeType this) (item_type item)))
                 (sortByASCII c this list)),
          h1_textContent :=
            getMessage c (if length (eidDisabledSet this) \<noteq> 0
                          then ''one_key_restore'' else ''one_key_disable''),
          activeElement := Body\<rparr>"

fun toggle_loop ::
  "chrome \<Rightarrow> ExtensionManager \<Rightarrow> ExtensionInfo \<Rightarrow> (li \<times> ExtensionInfo) list
     \<Rightarrow> (li \<times> ExtensionInfo) list" where
  "toggle_loop c this item [] = []"
| "toggle_loop c this item ((l, old) # rest) =
     (if item_id old = item_id item
      then (renderExtensionState c this l item, old) # rest
      else (l, old) # toggle_loop c this item rest)"

definition toggleExtensionState ::
  "chrome \<Rightarrow> ExtensionInfo \<Rightarrow> ExtensionManager \<Rightarrow> ExtensionManager" where
  "toggleExtensionState c item this =
     this\<lparr>ul_children := toggle_loop c this item (ul_children this)\<rparr>"

subsection \<open>Bulk operations\<close>

text \<open>
  \<^verbatim>\<open>tailId\<close> is \<^verbatim>\<open>false\<close> for an empty list and the last identifier otherwise; a string
  is never strictly equal to \<^verbatim>\<open>false\<close>, so \<open>None\<close> stands for it. A pending completion
  callback is the pair of the two variables its closure captured.
\<close>

type_synonym pending = "string \<times> string option"

definition setEnabled_callback :: "chrome \<Rightarrow> pending \<Rightarrow> ExtensionManager \<Rightarrow> ExtensionManager" where
  "setEnabled_callback c p this =
     (let this1 = this\<lparr>eidDisabledSet := Set_add (eidDisabledSet this) (fst p)\<rparr>
      in if Some (fst p) = snd p
         then (writeToLocal this1)\<lparr>h1_textContent := getMessage c ''one_key_restore''\<rparr>
         else this1)"

fun disable_loop ::
  "ExtensionInfo list \<Rightarrow> string option \<Rightarrow> ExtensionManager \<Rightarrow> ExtensionManager \<times> pending list" where
  "disable_loop [] tailId this = (this, [])"
| "disable_loop (item # filtered) tailId this =
     (case disable_loop filtered tailId
             (this\<lparr>calls := calls this @ [SetEnabled (item_id item) False]\<rparr>) of
        (this', ps) \<Rightarrow> (this', (item_id item, tailId) # ps))"

definition disable_filter :: "chrome \<Rightarrow> ExtensionManager \<Rightarrow> ExtensionInfo \<Rightarrow> bool" where
  "disable_filter c this item \<longleftrightarrow>
     item_id item \<noteq> runtime_id c \<and> \<not> Set_has (excludeType this) (item_type item)
     \<and> item_enabled item"

definition oneKeyDisable ::
  "chrome \<Rightarrow> ExtensionInfo list \<Rightarrow> ExtensionManager \<Rightarrow> ExtensionManager \<times> pending list" where
  "oneKeyDisable c list this =
     (let filtered = filter (disable_filter c this) list;
          tailId = (if length filtered \<noteq> 0 then Some (item_id (last filtered)) else None)
      in disable_loop filtered tailId this)"

definition run_callbacks :: "chrome \<Rightarrow> pending list \<Rightarrow> ExtensionManager \<Rightarrow> ExtensionManager" where
  \<comment> \<open>the browser completes the requests in the order they were issued\<close>
  "run_callbacks c ps this = foldl (\<lambda>t p. setEnabled_callback c p t) this ps"

definition restore_filter :: "chrome \<Rightarrow> ExtensionManager \<Rightarrow> ExtensionInfo \<Rightarrow> bool" where
  "restore_filter c this item \<longleftrightarrow>
     item_id item \<noteq> runtime_id c \<and> \<not> Set_has (excludeType this) (item_type item)
     \<and> \<not> item_enabled item"

definition disabledExisting_of ::
  "chrome \<Rightarrow> ExtensionManager \<Rightarrow> ExtensionInfo list \<Rightarrow> string option list" where
  \<comment> \<open>the mapped function returns \<^verbatim>\<open>undefined\<close> (\<open>None\<close>) for the other entries\<close>
  "disabledExisting_of c this list =
     Set_new (map (\<lambda>item. if restore_filter c this item then Some (item_id item) else None) list)"

fun restore_loop :: "string option list \<Rightarrow> string list \<Rightarrow> ExtensionManager \<Rightarrow> ExtensionManager" where
  "restore_loop disabledExisting [] this = this"
| "restore_loop disabledExisting (eid # disabledRecently) this =
     restore_loop disabledExisting disabledRecently
       (if Set_has disabledExisting (Some eid)
        then this\<lparr>calls := calls this @ [SetEnabled eid True]\<rparr>
        else this)"

definition oneKeyRestore ::
  "chrome \<Rightarrow> ExtensionInfo list \<Rightarrow> ExtensionManager \<Rightarrow> ExtensionManager" where
  "oneKeyRestore c list this =
     (let this1 = restore_loop (disabledExisting_of c this list) (eidDisabledSet this) this;
          this2 = writeToLocal (this1\<lparr>eidDisabledSet := []\<rparr>)
      in this2\<lparr>h1_textContent := getMessage c ''one_key_disable''\<rparr>)"

subsection \<open>Listeners\<close>

text \<open>
  A listener that starts an operation does so by asking the browser for the list of
  extensions; the operation itself runs when the list arrives. The click listeners
  return what they start, in order.
\<close>

datatype invocation = OneKeyRestore | OneKeyDisable | ManagementGet string

definition h1_click :: "ExtensionManager \<Rightarrow> invocation list" where
  "h1_click this =
     (if length (eidDisabledSet this) \<noteq> 0 then [OneKeyRestore] else [OneKeyDisable])"

definition ul_click :: "element \<Rightarrow> ExtensionManager \<Rightarrow> invocation list" where
  "ul_click tgt this =
     (case tgt of
        Li k \<Rightarrow> if k < length (ul_children this)
                then [ManagementGet (item_id (snd (ul_children this ! k)))] else []
      | _ \<Rightarrow> [])"

definition click :: "element \<Rightarrow> ExtensionManager \<Rightarrow> invocation list" where
  \<comment> \<open>a click reaches the listener of the header or, bubbling from a list item, of the list\<close>
  "click tgt this =
     (case tgt of H1 \<Rightarrow> h1_click this | Li k \<Rightarrow> ul_click (Li k) this | Body \<Rightarrow> [])"

record KeyboardEvent =
  key :: string
  shiftKey :: bool
  target :: element

definition keyup :: "KeyboardEvent \<Rightarrow> ExtensionManager \<Rightarrow> invocation list" where
  "keyup e this = (if key e = ''Enter'' then click (target e) this else [])"

definition getAll_callback ::
  "chrome \<Rightarrow> invocation \<Rightarrow> ExtensionInfo list \<Rightarrow> ExtensionManager
     \<Rightarrow> ExtensionManager \<times> pending list" where
  \<comment> \<open>the body of a bulk operation, on the list the browser delivers\<close>
  "getAll_callback c started list this =
     (case started of
        OneKeyRestore \<Rightarrow> (oneKeyRestore c list this, [])
      | OneKeyDisable \<Rightarrow> oneKeyDisable c list this
      | ManagementGet _ \<Rightarrow> (this, []))"

subsection \<open>Keyboard focus\<close>

fun findIndex :: "('a \<Rightarrow> bool) \<Rightarrow> 'a list \<Rightarrow> int" where
  "findIndex P [] = - 1"
| "findIndex P (x # xs) =
     (if P x then 0 else (if findIndex P xs < 0 then - 1 else findIndex P xs + 1))"

definition js_rem :: "int \<Rightarrow> int \<Rightarrow> int" where
  \<comment> \<open>\<^verbatim>\<open>%\<close> on integers: the remainder has the sign of the dividend\<close>
  "js_rem a b = sgn a * (\<bar>a\<bar> mod \<bar>b\<bar>)"

definition clickableElements :: "ExtensionManager \<Rightarrow> element list" where
  "clickableElements this = H1 # map Li [0..<length (ul_children this)]"

definition focus_at :: "element list \<Rightarrow> int \<Rightarrow> ExtensionManager \<Rightarrow> ExtensionManager option" where
  \<comment> \<open>\<^verbatim>\<open>elements[k].focus()\<close>; out of range the element is \<^verbatim>\<open>undefined\<close> and the call throws\<close>
  "focus_at elements k this =
     (if 0 \<le> k \<and> k < int (length elements)
      then Some (this\<lparr>activeElement := elements ! nat k\<rparr>) else None)"

definition focusClickableElement :: "int \<Rightarrow> ExtensionManager \<Rightarrow> ExtensionManager option" where
  "focusClickableElement offset this =
     (let elements = clickableElements this;
          index = findIndex (\<lambda>element. element = activeElement this) elements;
          n = int (length elements)
      in if offset = 1 then focus_at elements (js_rem (index + offset) n) this
         else if offset = - 1 then focus_at elements (js_rem (max index 0 + offset + n) n) this
         else Some this)"

definition keydown :: "KeyboardEvent \<Rightarrow> ExtensionManager \<Rightarrow> ExtensionManager option" where
  "keydown e this =
     (if key e = ''Tab'' then focusClickableElement (if shiftKey e then - 1 else 1) this
      else if key e = ''ArrowUp'' then focusClickableElement (- 1) this
      else if key e = ''ArrowDown'' then focusClickableElement 1 this
      else Some this)"

subsection \<open>Sample inputs\<close>

text \<open>
  A browser whose messages are their own keys and whose collation is the order of the
  character codes, and a list as \<^verbatim>\<open>getAll\<close> may deliver it: the popup itself, a theme,
  two enabled extensions and a disabled one.
\<close>

definition sample_chrome :: chrome where
  "sample_chrome =
     \<lparr>runtime_id = ''self'', getMessage = (\<lambda>k. k),
      localeCompare = (\<lambda>a b locales. if a < b then - 1 else if a = b then 0 else 1)\<rparr>"

definition sample_ext :: "string \<Rightarrow> string \<Rightarrow> bool \<Rightarrow> string \<Rightarrow> ExtensionInfo" where
  "sample_ext i n e t =
     \<lparr>item_id = i, item_name = n, item_shortName = None, item_enabled = e,
      item_type = t, item_icons = None\<rparr>"

definition sample_list :: "ExtensionInfo list" where
  "sample_list =
     [sample_ext ''b'' ''Beta'' True ''extension'',
      sample_ext ''self'' ''Manager'' True ''extension'',
      sample_ext ''t'' ''Theme'' True ''theme'',
      sample_ext ''a'' ''Alpha'' False ''extension'',
      sample_ext ''c'' ''Gamma'' True ''extension'']"

definition sample_manager :: ExtensionManager where
  "sample_manager = ExtensionManager_new [''theme''] None"

section \<open>Properties\<close>

subsection \<open>Sets, join and split\<close>

lemma set_foldl_Set_add: "set (foldl Set_add acc xs) = set acc \<union> set xs"
  by (induction xs arbitrary: acc) (auto simp: Set_add_def)

lemma js_split_not_Nil: "js_split c s \<noteq> []"
  by (induction s) (auto split: list.splits)

lemma js_split_comma_free: "c \<notin> set s \<Longrightarrow> js_split c s = [s]"
  by (induction s) auto

lemma js_split_append:
  "c \<notin> set x \<Longrightarrow> js_split c (x @ c # rest) = x # js_split c rest"
  by (induction x) auto

lemma js_split_join:
  "xs \<noteq> [] \<Longrightarrow> \<forall>x\<in>set xs. c \<notin> set x \<Longrightarrow> js_split c (js_join [c] xs) = xs"
proof (induction "[c]" xs rule: js_join.induct)
  case 1
  then show ?case by simp
next
  case (2 x)
  then show ?case by (simp add: js_split_comma_free)
next
  case (3 x y ys)
  then show ?case by (simp add: js_split_append)
qed

lemma js_join_Nil_iff:
  "js_join [c] xs = [] \<longleftrightarrow> xs = [] \<or> xs = [[]]"
  by (induction "[c]" xs rule: js_join.induct) auto

lemma readFromLocal_writeToLocal:
  "eidDisabledSet (readFromLocal ((writeToLocal this)\<lparr>eidDisabledSet := []\<rparr>)) =
     (if js_join '','' (eidDisabledSet this) = [] then []
      else foldl Set_add [] (js_split (CHR '','') (js_join '','' (eidDisabledSet this))))"
  by (simp add: readFromLocal_def writeToLocal_def Let_def)

subsection \<open>Persistence\<close>

text \<open>
  C6, as the claim states it, fails: the set whose only member is the empty string is
  free of commas, is saved as the empty string, and that loads as the empty set.
\<close>

theorem roundtrip_empty_identifier_counterexample:
  "CHR '','' \<notin> set ''''
   \<and> set (eidDisabledSet (readFromLocal
          ((writeToLocal (sample_manager\<lparr>eidDisabledSet := ['''']\<rparr>))\<lparr>eidDisabledSet := []\<rparr>)))
       \<noteq> set ['''']"
  by (simp add: sample_manager_def ExtensionManager_new_def readFromLocal_def
      writeToLocal_def Let_def)

text \<open>
  C6, amended: for a set of identifiers without commas, saving it and then loading it into
  an empty set gives back the same set of identifiers exactly when the set is not the
  one whose only member is the empty string. So every other set round-trips, the empty
  set included.
\<close>

theorem roundtrip_save_load:
  assumes "\<forall>i\<in>set (eidDisabledSet this). CHR '','' \<notin> set i"
  shows "set (eidDisabledSet (readFromLocal ((writeToLocal this)\<lparr>eidDisabledSet := []\<rparr>)))
           = set (eidDisabledSet this)
         \<longleftrightarrow> eidDisabledSet this \<noteq> [[]]"
proof (cases "js_join '','' (eidDisabledSet this) = []")
  case True
  then have "eidDisabledSet this = [] \<or> eidDisabledSet this = [[]]"
    by (simp add: js_join_Nil_iff)
  then show ?thesis
    using True by (auto simp: readFromLocal_writeToLocal)
next
  case False
  then have ne: "eidDisabledSet this \<noteq> []" and ne': "eidDisabledSet this \<noteq> [[]]"
    by (auto simp: js_join_Nil_iff)
  have "js_split (CHR '','') (js_join '','' (eidDisabledSet this)) = eidDisabledSet this"
    using ne assms by (rule js_split_join)
  then show ?thesis
    using False ne' by (simp add: readFromLocal_writeToLocal set_foldl_Set_add)
qed

theorem roundtrip_save_load_witness:
  "CHR '','' \<notin> set ''ab'' \<and> CHR '','' \<notin> set ''cd''
   \<and> [''ab'', ''cd''] \<noteq> [[]]
   \<and> localStorage_dei (writeToLocal (sample_manager\<lparr>eidDisabledSet := [''ab'', ''cd'']\<rparr>))
       = Some ''ab,cd''
   \<and> set (eidDisabledSet (readFromLocal
          ((writeToLocal (sample_manager\<lparr>eidDisabledSet := [''ab'', ''cd'']\<rparr>))
             \<lparr>eidDisabledSet := []\<rparr>)))
       = set [''ab'', ''cd'']
   \<and> set (eidDisabledSet (readFromLocal
          ((writeToLocal (sample_manager\<lparr>eidDisabledSet := []\<rparr>))\<lparr>eidDisabledSet := []\<rparr>)))
       = {}"
proof -
  have h: "\<forall>i\<in>set (eidDisabledSet (sample_manager\<lparr>eidDisabledSet := [''ab'', ''cd'']\<rparr>)).
             CHR '','' \<notin> set i"
    by simp
  have e: "\<forall>i\<in>set (eidDisabledSet (sample_manager\<lparr>eidDisabledSet := []\<rparr>)).
             CHR '','' \<notin> set i"
    by simp
  show ?thesis
    using roundtrip_save_load [OF h] roundtrip_save_load [OF e]
    by (simp add: writeToLocal_def)
qed

subsection \<open>Keyboard focus\<close>

lemma findIndex_distinct:
  "distinct xs \<Longrightarrow> i < length xs \<Longrightarrow> findIndex (\<lambda>e. e = xs ! i) xs = int i"
proof (induction xs arbitrary: i)
  case Nil
  then show ?case by simp
next
  case (Cons x xs)
  show ?case
  proof (cases i)
    case 0
    then show ?thesis by simp
  next
    case (Suc j)
    with Cons.prems have j: "j < length xs" and d: "distinct xs" and nx: "xs ! j \<noteq> x"
      by auto
    from Cons.IH [OF d j] nx Suc show ?thesis by simp
  qed
qed

lemma distinct_clickableElements: "distinct (clickableElements this)"
  by (auto simp: clickableElements_def distinct_map inj_on_def)

lemma length_clickableElements:
  "length (clickableElements this) = 1 + length (ul_children this)"
  by (simp add: clickableElements_def)

lemma js_rem_nonneg: "0 \<le> a \<Longrightarrow> 0 < b \<Longrightarrow> js_rem a b = a mod b"
  by (cases "a = 0") (simp_all add: js_rem_def)

lemma focus_forward:
  assumes "i < length (clickableElements this)"
    and "activeElement this = clickableElements this ! i"
  shows "focusClickableElement 1 this =
     Some (this\<lparr>activeElement :=
        clickableElements this ! ((i + 1) mod length (clickableElements this))\<rparr>)"
proof -
  let ?es = "clickableElements this"
  let ?n = "length ?es"
  have idx: "findIndex (\<lambda>e. e = activeElement this) ?es = int i"
    using findIndex_distinct [OF distinct_clickableElements assms(1)] assms(2) by simp
  have n: "0 < ?n" by (simp add: clickableElements_def)
  have "js_rem (int i + 1) (int ?n) = (int i + 1) mod int ?n"
    using n by (intro js_rem_nonneg) simp_all
  then have r: "js_rem (int i + 1) (int ?n) = int ((i + 1) mod ?n)"
    by (simp add: zmod_int add.commute)
  have lt: "(i + 1) mod ?n < ?n" using n by simp
  show ?thesis
    using idx r lt by (simp add: focusClickableElement_def Let_def focus_at_def)
qed

lemma focus_backward:
  assumes "i < length (clickableElements this)"
    and "activeElement this = clickableElements this ! i"
  shows "focusClickableElement (- 1) this =
     Some (this\<lparr>activeElement :=
        clickableElements this ! nat ((int i - 1) mod int (length (clickableElements this)))\<rparr>)"
proof -
  let ?es = "clickableElements this"
  let ?n = "length ?es"
  have idx: "findIndex (\<lambda>e. e = activeElement this) ?es = int i"
    using findIndex_distinct [OF distinct_clickableElements assms(1)] assms(2) by simp
  have n: "0 < ?n" by (simp add: clickableElements_def)
  have "0 \<le> int i - 1 + int ?n" "0 < int ?n"
    using n by linarith+
  then have "js_rem (int i - 1 + int ?n) (int ?n) = (int i - 1 + int ?n) mod int ?n"
    by (rule js_rem_nonneg)
  then have "js_rem (max (int i) 0 + - 1 + int ?n) (int ?n) = (int i - 1 + int ?n) mod int ?n"
    by simp
  also have "\<dots> = (int i - 1) mod int ?n"
    by simp
  finally have r: "js_rem (max (int i) 0 + - 1 + int ?n) (int ?n) = (int i - 1) mod int ?n" .
  have ge: "0 \<le> (int i - 1) mod int ?n" and lt: "(int i - 1) mod int ?n < int ?n"
    using n by simp_all
  show ?thesis
    using idx r ge lt by (simp add: focusClickableElement_def Let_def focus_at_def)
qed

lemma forward_from_last:
  "n = length (clickableElements this) \<Longrightarrow> clickableElements this ! ((n - 1 + 1) mod n) = H1"
  by (simp add: clickableElements_def)

lemma backward_from_header:
  assumes "n = length (clickableElements this)"
  shows "clickableElements this ! nat ((int 0 - 1) mod int n) = last (clickableElements this)"
proof -
  have n: "0 < n" using assms by (simp add: clickableElements_def)
  then have "(- 1) mod int n = int n - 1"
    by (simp add: zmod_minus1)
  then have "nat ((int 0 - 1) mod int n) = n - 1"
    by simp
  then show ?thesis
    using assms n by (simp add: last_conv_nth)
qed

text \<open>
  C9. The focus sequence is the header followed by the rendered list items, \<open>n\<close> elements
  with \<open>n \<ge> 1\<close>. When the element at position \<open>i\<close> has the focus, Tab and ArrowDown
  focus the element at position \<open>(i + 1) mod n\<close>, Shift+Tab and ArrowUp the one at
  \<open>(i - 1) mod n\<close>, and nothing else changes; forward from the last item is the header,
  backward from the header is the last item.
\<close>

theorem focus_moves_circularly:
  assumes "n = length (clickableElements this)"
    and "i < n"
    and "activeElement this = clickableElements this ! i"
  shows "clickableElements this = H1 # map Li [0..<length (ul_children this)]
    \<and> keydown \<lparr>key = ''Tab'', shiftKey = False, target = t\<rparr> this
        = Some (this\<lparr>activeElement := clickableElements this ! ((i + 1) mod n)\<rparr>)
    \<and> keydown \<lparr>key = ''ArrowDown'', shiftKey = s, target = t\<rparr> this
        = Some (this\<lparr>activeElement := clickableElements this ! ((i + 1) mod n)\<rparr>)
    \<and> keydown \<lparr>key = ''Tab'', shiftKey = True, target = t\<rparr> this
        = Some (this\<lparr>activeElement := clickableElements this ! nat ((int i - 1) mod int n)\<rparr>)
    \<and> keydown \<lparr>key = ''ArrowUp'', shiftKey = s, target = t\<rparr> this
        = Some (this\<lparr>activeElement := clickableElements this ! nat ((int i - 1) mod int n)\<rparr>)
    \<and> (i = n - 1 \<longrightarrow> clickableElements this ! ((i + 1) mod n) = H1)
    \<and> (i = 0 \<longrightarrow> clickableElements this ! nat ((int i - 1) mod int n)
                   = last (clickableElements this))"
proof -
  have i: "i < length (clickableElements this)"
    using assms(1,2) by simp
  have fw: "focusClickableElement 1 this
      = Some (this\<lparr>activeElement := clickableElements this ! ((i + 1) mod n)\<rparr>)"
    using focus_forward [OF i assms(3)] assms(1) by simp
  have bw: "focusClickableElement (- 1) this
      = Some (this\<lparr>activeElement := clickableElements this ! nat ((int i - 1) mod int n)\<rparr>)"
    using focus_backward [OF i assms(3)] assms(1) by simp
  have last: "i = n - 1 \<longrightarrow> clickableElements this ! ((i + 1) mod n) = H1"
    using forward_from_last [OF assms(1)] by simp
  have first: "i = 0 \<longrightarrow> clickableElements this ! nat ((int i - 1) mod int n)
                   = last (clickableElements this)"
    using backward_from_header [OF assms(1)] by simp
  show ?thesis
    using fw bw last first by (simp add: keydown_def clickableElements_def)
qed

theorem focus_moves_circularly_witness:
  "clickableElements (renderExtensions sample_chrome sample_list sample_manager)
     = [H1, Li 0, Li 1, Li 2]
   \<and> map_option activeElement
        (keydown \<lparr>key = ''Tab'', shiftKey = False, target = Li 2\<rparr>
           ((renderExtensions sample_chrome sample_list sample_manager)\<lparr>activeElement := Li 2\<rparr>))
       = Some H1
   \<and> map_option activeElement
        (keydown \<lparr>key = ''ArrowUp'', shiftKey = False, target = Li 2\<rparr>
           ((renderExtensions sample_chrome sample_list sample_manager)\<lparr>activeElement := Li 2\<rparr>))
       = Some (Li 1)"
proof -
  let ?m = "(renderExtensions sample_chrome sample_list sample_manager)\<lparr>activeElement := Li 2\<rparr>"
  have es: "clickableElements (renderExtensions sample_chrome sample_list sample_manager)
     = [H1, Li 0, Li 1, Li 2]"
    by (simp add: clickableElements_def renderExtensions_def sample_chrome_def sample_list_def
        sample_manager_def sample_ext_def ExtensionManager_new_def sortByASCII_def
        Array_sort_def defSortFunction_def Set_has_def upt_rec)
  have es': "clickableElements ?m = [H1, Li 0, Li 1, Li 2]"
    using es by (simp add: clickableElements_def)
  have n: "4 = length (clickableElements ?m)"
    using es' by simp
  have a: "activeElement ?m = clickableElements ?m ! 3"
    using es' by simp
  show ?thesis
    using focus_moves_circularly [OF n _ a, of "Li 2" False] es es' by simp
qed

subsection \<open>Header activation\<close>

text \<open>
  C8. A click on the header, or Enter released while the header has the focus, starts
  exactly one bulk operation: the restore when the disabled-by-us set has a member at
  that moment, the disable when it has none.
\<close>

theorem header_activation_starts_one_operation:
  "click H1 this = [if eidDisabledSet this \<noteq> [] then OneKeyRestore else OneKeyDisable]
   \<and> keyup \<lparr>key = ''Enter'', shiftKey = s, target = H1\<rparr> this = click H1 this
   \<and> length (click H1 this) = 1
   \<and> getAll_callback c (hd (click H1 this)) list this
       = (if eidDisabledSet this \<noteq> [] then (oneKeyRestore c list this, [])
          else oneKeyDisable c list this)"
  by (simp add: click_def keyup_def h1_click_def getAll_callback_def)

theorem header_activation_starts_one_operation_witness:
  "click H1 (sample_manager\<lparr>eidDisabledSet := [''a'']\<rparr>) = [OneKeyRestore]
   \<and> click H1 sample_manager = [OneKeyDisable]
   \<and> keyup \<lparr>key = ''Enter'', shiftKey = False, target = H1\<rparr> sample_manager = [OneKeyDisable]"
  using header_activation_starts_one_operation [of "sample_manager\<lparr>eidDisabledSet := [''a'']\<rparr>"]
    header_activation_starts_one_operation [of sample_manager False]
  by (simp add: sample_manager_def ExtensionManager_new_def)

subsection \<open>Labels and icons\<close>




lemma IconInfo_copy:
  "\<lparr>icon_size = icon_size icon, icon_url = icon_url icon\<rparr> = (icon :: IconInfo)"
  by (cases icon) simp

lemma icon_loop_below:
  "icon_size iconInfo < m \<Longrightarrow>
     icon_loop m iconInfo icons \<in> set (iconInfo # icons)
     \<and> icon_size (icon_loop m iconInfo icons) < m
     \<and> (\<forall>j\<in>set (iconInfo # icons).
           icon_size j < m \<longrightarrow> icon_size j \<le> icon_size (icon_loop m iconInfo icons))"
proof (induction icons arbitrary: iconInfo)
  case Nil
  then show ?case by simp
next
  case (Cons icon icons)
  show ?case
  proof (cases "icon_size icon > icon_size iconInfo \<and> icon_size icon < m")
    case True
    then have eq: "icon_loop m iconInfo (icon # icons) = icon_loop m icon icons"
      by (simp add: IconInfo_copy)
    from True have "icon_size icon < m" by simp
    note IH = Cons.IH [OF this]
    have "icon_size iconInfo \<le> icon_size (icon_loop m icon icons)"
      using IH True by force
    then show ?thesis
      unfolding eq using IH by auto
  next
    case False
    then have eq: "icon_loop m iconInfo (icon # icons) = icon_loop m iconInfo icons"
      by auto
    note IH = Cons.IH [OF Cons.prems]
    have "icon_size iconInfo \<le> icon_size (icon_loop m iconInfo icons)"
      using IH Cons.prems by simp
    then have "icon_size icon < m \<longrightarrow> icon_size icon \<le> icon_size (icon_loop m iconInfo icons)"
      using False by linarith
    then show ?thesis
      unfolding eq using IH by auto
  qed
qed

lemma icon_loop_not_below:
  "m \<le> icon_size iconInfo \<Longrightarrow> icon_loop m iconInfo icons = iconInfo"
  by (induction icons) auto

text \<open>
  Where the first icon is smaller than the maximum, the icon chosen is a largest one
  among the icons smaller than the maximum.
\<close>

lemma iconInfo_of_first_below:
  assumes "item_icons item = Some (firstIcon # restIcons)"
    and "icon_size firstIcon < maxIconSize this"
  shows "iconInfo_of this item \<in> set (firstIcon # restIcons)
     \<and> icon_size (iconInfo_of this item) < maxIconSize this
     \<and> (\<forall>j\<in>set (firstIcon # restIcons).
           icon_size j < maxIconSize this \<longrightarrow> icon_size j \<le> icon_size (iconInfo_of this item))"
  using icon_loop_below [OF assms(2), of restIcons] assms(1)
  by (simp add: iconInfo_of_def IconInfo_copy)

text \<open>
  The first icon is never compared with the maximum: when it is not smaller, it is the
  icon chosen, whatever the other icons are.
\<close>

lemma iconInfo_of_first_not_below:
  assumes "item_icons item = Some (firstIcon # restIcons)"
    and "maxIconSize this \<le> icon_size firstIcon"
  shows "iconInfo_of this item = firstIcon"
  using icon_loop_not_below [of "maxIconSize this" firstIcon restIcons] assms
  by (simp add: iconInfo_of_def IconInfo_copy)

lemma iconInfo_of_no_icons:
  "item_icons item = None \<or> item_icons item = Some [] \<Longrightarrow>
     iconInfo_of this item
       = \<lparr>icon_size = 32, icon_url = ''chrome://extension-icon/'' @ item_id item @ ''/32/0''\<rparr>"
  by (auto simp: iconInfo_of_def)

text \<open>
  C3. The claim asks for the largest icon smaller than 64. On an extension whose icons
  are one of 128 pixels followed by one of 48 pixels, the popup built by the constructor
  shows the icon of 128 pixels, although the one of 48 pixels is the largest below 64.
\<close>

theorem icon_first_of_128_hides_48:
  "maxIconSize sample_manager = 64
   \<and> iconInfo_of sample_manager
        ((sample_ext ''a'' ''Alpha'' True ''extension'')
           \<lparr>item_icons := Some [\<lparr>icon_size = 128, icon_url = ''big.png''\<rparr>,
                                \<lparr>icon_size = 48, icon_url = ''mid.png''\<rparr>]\<rparr>)
       = \<lparr>icon_size = 128, icon_url = ''big.png''\<rparr>
   \<and> img_src (renderExtensionState sample_chrome sample_manager createElement_li
        ((sample_ext ''a'' ''Alpha'' True ''extension'')
           \<lparr>item_icons := Some [\<lparr>icon_size = 128, icon_url = ''big.png''\<rparr>,
                                \<lparr>icon_size = 48, icon_url = ''mid.png''\<rparr>]\<rparr>))
       = ''big.png''"
  by (simp add: sample_manager_def ExtensionManager_new_def sample_ext_def iconInfo_of_def
      renderExtensionState_def)

subsection \<open>Bulk disable\<close>

lemma disable_loop_eq:
  "disable_loop filtered tailId this =
     (this\<lparr>calls := calls this @ map (\<lambda>item. SetEnabled (item_id item) False) filtered\<rparr>,
      map (\<lambda>item. (item_id item, tailId)) filtered)"
  by (induction filtered arbitrary: this) simp_all

lemma filter_disable_filter:
  "filter (disable_filter c this) list =
     [item \<leftarrow> list. item_id item \<noteq> runtime_id c
        \<and> item_type item \<notin> set (excludeType this) \<and> item_enabled item]"
  by (rule filter_cong) (simp_all add: disable_filter_def Set_has_def)

lemma oneKeyDisable_eq:
  "oneKeyDisable c list this =
     (this\<lparr>calls := calls this
              @ map (\<lambda>item. SetEnabled (item_id item) False) (filter (disable_filter c this) list)\<rparr>,
      map (\<lambda>item. (item_id item,
                    if filter (disable_filter c this) list \<noteq> []
                    then Some (item_id (last (filter (disable_filter c this) list))) else None))
        (filter (disable_filter c this) list))"
  by (simp add: oneKeyDisable_def Let_def disable_loop_eq)

lemma eidDisabledSet_setEnabled_callback:
  "eidDisabledSet (setEnabled_callback c p t) = Set_add (eidDisabledSet t) (fst p)"
  by (simp add: setEnabled_callback_def Let_def writeToLocal_def)

lemma setEnabled_callback_tail:
  assumes "snd p = Some (fst p)"
  shows "localStorage_dei (setEnabled_callback c p t)
           = Some (js_join '','' (eidDisabledSet (setEnabled_callback c p t)))
     \<and> calls (setEnabled_callback c p t)
           = calls t @ [SetItem (js_join '','' (eidDisabledSet (setEnabled_callback c p t)))]
     \<and> h1_textContent (setEnabled_callback c p t) = getMessage c ''one_key_restore''"
  using assms by (simp add: setEnabled_callback_def Let_def writeToLocal_def)

lemma eidDisabledSet_run_callbacks:
  "set (eidDisabledSet (run_callbacks c ps t)) = set (eidDisabledSet t) \<union> fst ` set ps"
  unfolding run_callbacks_def
  by (induction ps arbitrary: t)
    (auto simp: eidDisabledSet_setEnabled_callback Set_add_def)

lemma run_callbacks_snoc:
  "ps \<noteq> [] \<Longrightarrow>
     run_callbacks c ps t = setEnabled_callback c (last ps) (run_callbacks c (butlast ps) t)"
proof -
  assume "ps \<noteq> []"
  then have "ps = butlast ps @ [last ps]" by simp
  then have "run_callbacks c ps t = run_callbacks c (butlast ps @ [last ps]) t" by simp
  then show ?thesis
    by (simp add: run_callbacks_def del: append_butlast_last_id)
qed

text \<open>
  C7. When no entry of the list is enabled once the popup itself and the excluded types
  are left out, the bulk disable changes nothing: no request to the browser, no write
  to local storage, the same disabled-by-us set, the same header, and no callback left
  to run.
\<close>

theorem oneKeyDisable_nothing_to_disable:
  assumes "\<forall>item\<in>set list. item_id item = runtime_id c
             \<or> item_type item \<in> set (excludeType this) \<or> \<not> item_enabled item"
  shows "oneKeyDisable c list this = (this, [])
     \<and> run_callbacks c (snd (oneKeyDisable c list this)) (fst (oneKeyDisable c list this)) = this"
proof -
  have "filter (disable_filter c this) list = []"
    using assms by (auto simp: filter_empty_conv disable_filter_def Set_has_def)
  then show ?thesis
    by (simp add: oneKeyDisable_eq run_callbacks_def)
qed

theorem oneKeyDisable_nothing_to_disable_witness:
  "oneKeyDisable sample_chrome
      [sample_ext ''self'' ''Manager'' True ''extension'', sample_ext ''t'' ''Theme'' True ''theme'',
       sample_ext ''a'' ''Alpha'' False ''extension'']
      (sample_manager\<lparr>eidDisabledSet := [''z'']\<rparr>)
    = (sample_manager\<lparr>eidDisabledSet := [''z'']\<rparr>, [])"
proof -
  have h: "\<forall>item\<in>set [sample_ext ''self'' ''Manager'' True ''extension'',
                         sample_ext ''t'' ''Theme'' True ''theme'',
                         sample_ext ''a'' ''Alpha'' False ''extension''].
             item_id item = runtime_id sample_chrome
             \<or> item_type item \<in> set (excludeType (sample_manager\<lparr>eidDisabledSet := [''z'']\<rparr>))
             \<or> \<not> item_enabled item"
    by (simp add: sample_ext_def sample_chrome_def sample_manager_def ExtensionManager_new_def)
  show ?thesis
    using oneKeyDisable_nothing_to_disable [OF h] by simp
qed

text \<open>
  C1. The bulk disable asks the browser to disable exactly the entries that are enabled,
  are not the popup itself and are not of an excluded type, in the order of the list.
  Each request has its completion callback, which adds the identifier of its entry to
  the disabled-by-us set. The callback of the last entry also writes the set to local
  storage and sets the header to the message \<^verbatim>\<open>one_key_restore\<close>; so when the callbacks
  have run in the order of the requests, the set holds every identifier requested, it
  is what local storage holds, and the header is that message.
\<close>

theorem oneKeyDisable_requests_then_persists:
  assumes "filtered = [item \<leftarrow> list. item_id item \<noteq> runtime_id c
              \<and> item_type item \<notin> set (excludeType this) \<and> item_enabled item]"
    and "oneKeyDisable c list this = (this', ps)"
  shows "this' = this\<lparr>calls := calls this @ map (\<lambda>item. SetEnabled (item_id item) False) filtered\<rparr>
     \<and> map fst ps = map item_id filtered
     \<and> (\<forall>p\<in>set ps. \<forall>t. eidDisabledSet (setEnabled_callback c p t)
                             = Set_add (eidDisabledSet t) (fst p))
     \<and> (filtered \<noteq> [] \<longrightarrow>
          (\<forall>t. localStorage_dei (setEnabled_callback c (last ps) t)
                  = Some (js_join '','' (eidDisabledSet (setEnabled_callback c (last ps) t)))
              \<and> h1_textContent (setEnabled_callback c (last ps) t)
                  = getMessage c ''one_key_restore''))
     \<and> (filtered \<noteq> [] \<longrightarrow>
          set (eidDisabledSet (run_callbacks c ps this'))
            = set (eidDisabledSet this) \<union> item_id ` set filtered
          \<and> localStorage_dei (run_callbacks c ps this')
            = Some (js_join '','' (eidDisabledSet (run_callbacks c ps this')))
          \<and> h1_textContent (run_callbacks c ps this') = getMessage c ''one_key_restore'')"
proof -
  have f: "filter (disable_filter c this) list = filtered"
    using assms(1) by (simp add: filter_disable_filter)
  have this': "this' = this\<lparr>calls := calls this
                 @ map (\<lambda>item. SetEnabled (item_id item) False) filtered\<rparr>"
    and ps: "ps = map (\<lambda>item. (item_id item,
                 if filtered \<noteq> [] then Some (item_id (last filtered)) else None)) filtered"
    using assms(2) unfolding oneKeyDisable_eq f by simp_all
  have ids: "map fst ps = map item_id filtered"
    unfolding ps by (simp add: comp_def)
  have adds: "\<forall>p\<in>set ps. \<forall>t. eidDisabledSet (setEnabled_callback c p t)
                             = Set_add (eidDisabledSet t) (fst p)"
    by (simp add: eidDisabledSet_setEnabled_callback)
  have tail: "snd (last ps) = Some (fst (last ps))" if "filtered \<noteq> []"
    using that unfolding ps by (simp add: last_map)
  have last_cb: "\<forall>t. localStorage_dei (setEnabled_callback c (last ps) t)
                  = Some (js_join '','' (eidDisabledSet (setEnabled_callback c (last ps) t)))
              \<and> h1_textContent (setEnabled_callback c (last ps) t)
                  = getMessage c ''one_key_restore''" if "filtered \<noteq> []"
    using setEnabled_callback_tail [OF tail [OF that]] by simp
  have ne: "ps \<noteq> []" if "filtered \<noteq> []"
    using that unfolding ps by simp
  have members: "set (eidDisabledSet (run_callbacks c ps this'))
            = set (eidDisabledSet this) \<union> item_id ` set filtered"
  proof -
    have "fst ` set ps = item_id ` set filtered"
      using ids by (metis list.set_map)
    then show ?thesis
      by (simp add: eidDisabledSet_run_callbacks this')
  qed
  have final: "localStorage_dei (run_callbacks c ps this')
            = Some (js_join '','' (eidDisabledSet (run_callbacks c ps this')))
          \<and> h1_textContent (run_callbacks c ps this') = getMessage c ''one_key_restore''"
    if "filtered \<noteq> []"
    using last_cb [OF that] run_callbacks_snoc [OF ne [OF that], of c this'] by simp
  show ?thesis
    using this' ids adds last_cb members final by blast
qed

theorem oneKeyDisable_requests_then_persists_witness:
  "fst (oneKeyDisable sample_chrome sample_list sample_manager)
     = sample_manager\<lparr>calls := [SetEnabled ''b'' False, SetEnabled ''c'' False]\<rparr>
   \<and> map fst (snd (oneKeyDisable sample_chrome sample_list sample_manager)) = [''b'', ''c'']
   \<and> set (eidDisabledSet (run_callbacks sample_chrome
             (snd (oneKeyDisable sample_chrome sample_list sample_manager))
             (fst (oneKeyDisable sample_chrome sample_list sample_manager)))) = {''b'', ''c''}
   \<and> h1_textContent (run_callbacks sample_chrome
             (snd (oneKeyDisable sample_chrome sample_list sample_manager))
             (fst (oneKeyDisable sample_chrome sample_list sample_manager))) = ''one_key_restore''"
proof -
  define r where "r = oneKeyDisable sample_chrome sample_list sample_manager"
  define filtered where
    "filtered = [sample_ext ''b'' ''Beta'' True ''extension'', sample_ext ''c'' ''Gamma'' True ''extension'']"
  have f: "filtered = [item \<leftarrow> sample_list. item_id item \<noteq> runtime_id sample_chrome
              \<and> item_type item \<notin> set (excludeType sample_manager) \<and> item_enabled item]"
    by (simp add: filtered_def sample_list_def sample_ext_def sample_chrome_def sample_manager_def
        ExtensionManager_new_def)
  have r: "oneKeyDisable sample_chrome sample_list sample_manager = (fst r, snd r)"
    by (simp add: r_def)
  note T = oneKeyDisable_requests_then_persists [OF f r]
  have ne: "filtered \<noteq> []"
    by (simp add: filtered_def)
  have c1: "fst r = sample_manager\<lparr>calls := [SetEnabled ''b'' False, SetEnabled ''c'' False]\<rparr>"
    using T by (simp add: filtered_def sample_ext_def sample_manager_def ExtensionManager_new_def)
  have c2: "map fst (snd r) = [''b'', ''c'']"
    using T by (simp add: filtered_def sample_ext_def)
  have "set (eidDisabledSet (run_callbacks sample_chrome (snd r) (fst r)))
      = set (eidDisabledSet sample_manager) \<union> item_id ` set filtered"
    using T ne by blast
  then have c3: "set (eidDisabledSet (run_callbacks sample_chrome (snd r) (fst r))) = {''b'', ''c''}"
    by (simp add: filtered_def sample_ext_def sample_manager_def ExtensionManager_new_def)
  have "h1_textContent (run_callbacks sample_chrome (snd r) (fst r))
      = getMessage sample_chrome ''one_key_restore''"
    using T ne by blast
  then have c4: "h1_textContent (run_callbacks sample_chrome (snd r) (fst r)) = ''one_key_restore''"
    by (simp add: sample_chrome_def)
  show ?thesis
    unfolding r_def [symmetric] using c1 c2 c3 c4 by simp
qed

subsection \<open>Bulk restore\<close>

lemma restore_loop_eq:
  "restore_loop disabledExisting disabledRecently this =
     this\<lparr>calls := calls this
            @ map (\<lambda>eid. SetEnabled eid True)
                [eid \<leftarrow> disabledRecently. Some eid \<in> set disabledExisting]\<rparr>"
  by (induction disabledRecently arbitrary: this) (simp_all add: Set_has_def)

lemma Some_in_disabledExisting_of:
  "Some eid \<in> set (disabledExisting_of c this list) \<longleftrightarrow>
     (\<exists>item\<in>set list. item_id item = eid \<and> eid \<noteq> runtime_id c
        \<and> item_type item \<notin> set (excludeType this) \<and> \<not> item_enabled item)"
  by (auto simp: disabledExisting_of_def Set_new_def set_foldl_Set_add restore_filter_def
      Set_has_def split: if_splits)

lemma oneKeyRestore_eq:
  "oneKeyRestore c list this =
     this\<lparr>calls := calls this
            @ map (\<lambda>eid. SetEnabled eid True)
                [eid \<leftarrow> eidDisabledSet this. Some eid \<in> set (disabledExisting_of c this list)]
            @ [SetItem []],
          eidDisabledSet := [],
          localStorage_dei := Some [],
          h1_textContent := getMessage c ''one_key_disable''\<rparr>"
  by (simp add: oneKeyRestore_def Let_def restore_loop_eq writeToLocal_def)

text \<open>
  C2. The bulk restore asks the browser to enable exactly the identifiers of the
  disabled-by-us set that some entry of the list, not the popup itself and not of an
  excluded type, reports as disabled; an identifier of the set that no entry reports as
  disabled gets no request. Whatever was requested, the set is empty afterwards, the
  empty set is what is written to local storage (and what a later load finds), and the
  header is the message \<^verbatim>\<open>one_key_disable\<close>.
\<close>

theorem oneKeyRestore_requests_then_clears:
  "oneKeyRestore c list this =
     this\<lparr>calls := calls this
            @ map (\<lambda>eid. SetEnabled eid True)
                [eid \<leftarrow> eidDisabledSet this.
                   \<exists>item\<in>set list. item_id item = eid \<and> eid \<noteq> runtime_id c
                      \<and> item_type item \<notin> set (excludeType this) \<and> \<not> item_enabled item]
            @ [SetItem []],
          eidDisabledSet := [],
          localStorage_dei := Some [],
          h1_textContent := getMessage c ''one_key_disable''\<rparr>
   \<and> eidDisabledSet (readFromLocal (oneKeyRestore c list this)) = []"
  by (simp add: oneKeyRestore_eq Some_in_disabledExisting_of readFromLocal_def)

theorem oneKeyRestore_requests_then_clears_witness:
  "oneKeyRestore sample_chrome
      [sample_ext ''x'' ''X'' True ''extension'', sample_ext ''y'' ''Y'' False ''extension'']
      (sample_manager\<lparr>eidDisabledSet := [''x'', ''y'']\<rparr>)
    = sample_manager\<lparr>calls := [SetEnabled ''y'' True, SetItem []],
        localStorage_dei := Some [], h1_textContent := ''one_key_disable''\<rparr>"
  using oneKeyRestore_requests_then_clears [of sample_chrome
      "[sample_ext ''x'' ''X'' True ''extension'', sample_ext ''y'' ''Y'' False ''extension'']"
      "sample_manager\<lparr>eidDisabledSet := [''x'', ''y'']\<rparr>"]
  by (simp add: sample_ext_def sample_chrome_def sample_manager_def ExtensionManager_new_def)

subsection \<open>Sorting\<close>

lemma mset_insort_cmp: "mset (insort_cmp f x xs) = add_mset x (mset xs)"
  by (induction xs) simp_all

lemma mset_Array_sort: "mset (Array_sort f xs) = mset xs"
  unfolding Array_sort_def by (induction xs) (simp_all add: mset_insort_cmp)

lemma set_insort_cmp: "set (insort_cmp f x xs) = insert x (set xs)"
  by (induction xs) auto

lemma sorted_wrt_insort_cmp:
  assumes tot: "\<forall>a b. f a b \<le> 0 \<or> f b a \<le> 0"
    and trans: "\<forall>a b d. f a b \<le> 0 \<and> f b d \<le> 0 \<longrightarrow> f a d \<le> (0::int)"
  shows "sorted_wrt (\<lambda>a b. f a b \<le> 0) xs \<Longrightarrow> sorted_wrt (\<lambda>a b. f a b \<le> 0) (insort_cmp f x xs)"
proof (induction xs)
  case Nil
  then show ?case by simp
next
  case (Cons y ys)
  show ?case
  proof (cases "f x y \<le> 0")
    case True
    have "\<forall>z\<in>set ys. f x z \<le> 0"
    proof
      fix z
      assume "z \<in> set ys"
      then have "f y z \<le> 0"
        using Cons.prems by simp
      with True show "f x z \<le> 0"
        using trans by blast
    qed
    then show ?thesis
      using True Cons.prems by simp
  next
    case False
    then have "f y x \<le> 0"
      using tot by blast
    then show ?thesis
      using False Cons by (simp add: set_insort_cmp)
  qed
qed

lemma sorted_wrt_Array_sort:
  assumes "\<forall>a b. f a b \<le> 0 \<or> f b a \<le> 0"
    and "\<forall>a b d. f a b \<le> 0 \<and> f b d \<le> 0 \<longrightarrow> f a d \<le> (0::int)"
  shows "sorted_wrt (\<lambda>a b. f a b \<le> 0) (Array_sort f xs)"
  unfolding Array_sort_def
  by (induction xs) (simp_all add: sorted_wrt_insort_cmp [OF assms])

text \<open>
  C4. The collation of \<^verbatim>\<open>localeCompare\<close> for the locale \<^verbatim>\<open>en-US\<close> is the browser's; all
  that is asked of it is that it orders names consistently (any two names are
  comparable, and the comparison is transitive). The order \<open>le\<close> on names is that
  collation or any order it refines, such as the same collation with the case of letters
  ignored. Then the sorter returns a permutation of its input; with the partition flag
  off, names never decrease along it; with the flag on, it is the enabled entries,
  sorted in that way, followed by the disabled entries, sorted in that way.
\<close>

theorem sortByASCII_sorted_permutation:
  assumes tot: "\<forall>a b. localeCompare c a b ''en-US'' \<le> 0 \<or> localeCompare c b a ''en-US'' \<le> 0"
    and trans: "\<forall>a b d. localeCompare c a b ''en-US'' \<le> 0 \<and> localeCompare c b d ''en-US'' \<le> 0
                  \<longrightarrow> localeCompare c a d ''en-US'' \<le> 0"
    and refines: "\<forall>a b. localeCompare c a b ''en-US'' \<le> 0 \<longrightarrow> le a b"
  shows "mset (sortByASCII c this list) = mset list
     \<and> (\<not> partition_flag this \<longrightarrow>
          sorted_wrt (\<lambda>p q. le (item_name p) (item_name q)) (sortByASCII c this list))
     \<and> (partition_flag this \<longrightarrow>
          (\<exists>enabled disabled.
             sortByASCII c this list = enabled @ disabled
             \<and> mset enabled = mset (filter item_enabled list)
             \<and> mset disabled = mset (filter (\<lambda>item. \<not> item_enabled item) list)
             \<and> sorted_wrt (\<lambda>p q. le (item_name p) (item_name q)) enabled
             \<and> sorted_wrt (\<lambda>p q. le (item_name p) (item_name q)) disabled))"
proof -
  let ?le = "\<lambda>p q. le (item_name p) (item_name q)"
  have tot': "\<forall>p q. defSortFunction c p q \<le> 0 \<or> defSortFunction c q p \<le> 0"
    using tot by (simp add: defSortFunction_def)
  have trans': "\<forall>p q r. defSortFunction c p q \<le> 0 \<and> defSortFunction c q r \<le> 0
                  \<longrightarrow> defSortFunction c p r \<le> 0"
    using trans unfolding defSortFunction_def by blast
  have sorted: "sorted_wrt ?le (Array_sort (defSortFunction c) xs)" for xs
  proof (rule sorted_wrt_mono_rel [OF _ sorted_wrt_Array_sort [OF tot' trans']])
    fix p q
    assume "defSortFunction c p q \<le> 0"
    then show "le (item_name p) (item_name q)"
      using refines by (simp add: defSortFunction_def)
  qed
  have perm: "mset (sortByASCII c this list) = mset list"
    by (simp add: sortByASCII_def mset_Array_sort)
  have flat: "\<not> partition_flag this \<longrightarrow> sorted_wrt ?le (sortByASCII c this list)"
    by (simp add: sortByASCII_def sorted)
  have parts: "partition_flag this \<longrightarrow>
          (\<exists>enabled disabled.
             sortByASCII c this list = enabled @ disabled
             \<and> mset enabled = mset (filter item_enabled list)
             \<and> mset disabled = mset (filter (\<lambda>item. \<not> item_enabled item) list)
             \<and> sorted_wrt ?le enabled \<and> sorted_wrt ?le disabled)"
  proof
    assume p: "partition_flag this"
    show "\<exists>enabled disabled.
             sortByASCII c this list = enabled @ disabled
             \<and> mset enabled = mset (filter item_enabled list)
             \<and> mset disabled = mset (filter (\<lambda>item. \<not> item_enabled item) list)
             \<and> sorted_wrt ?le enabled \<and> sorted_wrt ?le disabled"
      using p sorted
      by (intro exI [of _ "Array_sort (defSortFunction c) (filter item_enabled list)"]
          exI [of _ "Array_sort (defSortFunction c) (filter (\<lambda>item. \<not> item_enabled item) list)"])
        (simp add: sortByASCII_def mset_Array_sort)
  qed
  show ?thesis
    using perm flat parts by blast
qed

theorem sortByASCII_sorted_permutation_witness:
  "map item_name (sortByASCII sample_chrome sample_manager sample_list)
     = [''Alpha'', ''Beta'', ''Gamma'', ''Manager'', ''Theme'']
   \<and> sorted_wrt (\<lambda>p q. item_name p \<le> item_name q)
        (sortByASCII sample_chrome sample_manager sample_list)
   \<and> map item_name (sortByASCII sample_chrome (sample_manager\<lparr>partition_flag := True\<rparr>) sample_list)
     = [''Beta'', ''Gamma'', ''Manager'', ''Theme'', ''Alpha'']
   \<and> mset (sortByASCII sample_chrome (sample_manager\<lparr>partition_flag := True\<rparr>) sample_list)
     = mset sample_list"
proof -
  have tot: "\<forall>a b. localeCompare sample_chrome a b ''en-US'' \<le> 0
               \<or> localeCompare sample_chrome b a ''en-US'' \<le> 0"
    by (auto simp: sample_chrome_def)
  have trans: "\<forall>a b d. localeCompare sample_chrome a b ''en-US'' \<le> 0
                 \<and> localeCompare sample_chrome b d ''en-US'' \<le> 0
                  \<longrightarrow> localeCompare sample_chrome a d ''en-US'' \<le> 0"
    by (auto simp: sample_chrome_def split: if_splits)
  have refines: "\<forall>a b. localeCompare sample_chrome a b ''en-US'' \<le> 0 \<longrightarrow> a \<le> b"
    by (auto simp: sample_chrome_def split: if_splits)
  note T = sortByASCII_sorted_permutation [OF tot trans refines]
  have flat: "map item_name (sortByASCII sample_chrome sample_manager sample_list)
     = [''Alpha'', ''Beta'', ''Gamma'', ''Manager'', ''Theme'']"
    by code_simp
  have parts: "map item_name
        (sortByASCII sample_chrome (sample_manager\<lparr>partition_flag := True\<rparr>) sample_list)
     = [''Beta'', ''Gamma'', ''Manager'', ''Theme'', ''Alpha'']"
    by code_simp
  have f: "\<not> partition_flag sample_manager"
    by (simp add: sample_manager_def ExtensionManager_new_def)
  show ?thesis
    using T [of sample_manager sample_list] f
      T [of "sample_manager\<lparr>partition_flag := True\<rparr>" sample_list] flat parts
    by blast
qed

subsection \<open>Exclusion of the popup itself and of the excluded types\<close>

lemma set_Array_sort: "set (Array_sort f xs) = set xs"
  using mset_Array_sort [of f xs] by (metis set_mset_mset)

lemma set_sortByASCII: "set (sortByASCII c this list) = set list"
  by (auto simp: sortByASCII_def set_Array_sort)

lemma rendered_items:
  "map snd (ul_children (renderExtensions c list this)) =
     [item \<leftarrow> sortByASCII c this list.
        item_id item \<noteq> runtime_id c \<and> item_type item \<notin> set (excludeType this)]"
  by (simp add: renderExtensions_def comp_def Set_has_def)

lemma set_rendered_items:
  "snd ` set (ul_children (renderExtensions c list this)) =
     {item \<in> set list. item_id item \<noteq> runtime_id c \<and> item_type item \<notin> set (excludeType this)}"
proof -
  have "snd ` set (ul_children (renderExtensions c list this))
      = set (map snd (ul_children (renderExtensions c list this)))"
    by simp
  also have "\<dots> = {item \<in> set list. item_id item \<noteq> runtime_id c
                      \<and> item_type item \<notin> set (excludeType this)}"
    unfolding rendered_items by (simp add: set_sortByASCII)
  finally show ?thesis .
qed

lemma toggle_loop_snd: "map snd (toggle_loop c this ev xs) = map snd xs"
  by (induction xs) auto

lemma toggleExtensionState_items:
  "map snd (ul_children (toggleExtensionState c ev this)) = map snd (ul_children this)"
  by (simp add: toggleExtensionState_def toggle_loop_snd)

lemma oneKeyDisable_new_calls:
  "drop (length (calls this)) (calls (fst (oneKeyDisable c list this))) =
     map (\<lambda>item. SetEnabled (item_id item) False) (filter (disable_filter c this) list)"
  by (simp add: oneKeyDisable_eq)

lemma oneKeyDisable_pending_ids:
  "map fst (snd (oneKeyDisable c list this)) = map item_id (filter (disable_filter c this) list)"
  by (simp add: oneKeyDisable_eq comp_def)

lemma oneKeyRestore_new_calls:
  "drop (length (calls this)) (calls (oneKeyRestore c list this)) =
     map (\<lambda>eid. SetEnabled eid True)
       [eid \<leftarrow> eidDisabledSet this. Some eid \<in> set (disabledExisting_of c this list)]
     @ [SetItem []]"
  by (simp add: oneKeyRestore_eq)

lemma disable_candidate:
  assumes "SetEnabled eid b \<in> set (drop (length (calls this)) (calls (fst (oneKeyDisable c list this))))
           \<or> eid \<in> fst ` set (snd (oneKeyDisable c list this))"
  shows "\<exists>item\<in>set list. item_id item = eid \<and> eid \<noteq> runtime_id c
           \<and> item_type item \<notin> set (excludeType this)"
proof -
  have "eid \<in> set (map fst (snd (oneKeyDisable c list this)))
        \<or> SetEnabled eid b \<in> set (map (\<lambda>item. SetEnabled (item_id item) False)
                                     (filter (disable_filter c this) list))"
    using assms unfolding oneKeyDisable_new_calls by auto
  then have "\<exists>item\<in>set (filter (disable_filter c this) list). item_id item = eid"
    unfolding oneKeyDisable_pending_ids by auto
  then show ?thesis
    by (auto simp: disable_filter_def Set_has_def)
qed

lemma restore_candidate:
  assumes "SetEnabled eid b \<in> set (drop (length (calls this)) (calls (oneKeyRestore c list this)))"
  shows "\<exists>item\<in>set list. item_id item = eid \<and> eid \<noteq> runtime_id c
           \<and> item_type item \<notin> set (excludeType this)"
proof -
  have "Some eid \<in> set (disabledExisting_of c this list)"
    using assms unfolding oneKeyRestore_new_calls by auto
  then show ?thesis
    unfolding Some_in_disabledExisting_of by blast
qed

lemma same_identifier_same_entry:
  "distinct (map item_id list) \<Longrightarrow> x \<in> set list \<Longrightarrow> y \<in> set list \<Longrightarrow>
     item_id x = item_id y \<Longrightarrow> x = y"
  by (meson distinct_map inj_on_def)

lemma excluded_entry_left_out:
  assumes "distinct (map item_id list)"
    and "item \<in> set list"
    and "item_id item = runtime_id c \<or> item_type item \<in> set (excludeType this)"
  shows "item_id item \<notin> (item_id \<circ> snd) ` set (ul_children (renderExtensions c list this))
     \<and> (\<forall>b. SetEnabled (item_id item) b
               \<notin> set (drop (length (calls this)) (calls (fst (oneKeyDisable c list this)))))
     \<and> item_id item \<notin> fst ` set (snd (oneKeyDisable c list this))
     \<and> (\<forall>b. SetEnabled (item_id item) b
               \<notin> set (drop (length (calls this)) (calls (oneKeyRestore c list this))))"
proof -
  have other: False
    if "x \<in> set list" and "item_id x = item_id item" and "item_id item \<noteq> runtime_id c"
      and "item_type x \<notin> set (excludeType this)" for x
  proof -
    have "x = item"
      using same_identifier_same_entry [OF assms(1) that(1) assms(2) that(2)] .
    then show False
      using assms(3) that(3,4) by simp
  qed
  have rendered: "item_id item \<notin> (item_id \<circ> snd) ` set (ul_children (renderExtensions c list this))"
  proof
    assume "item_id item \<in> (item_id \<circ> snd) ` set (ul_children (renderExtensions c list this))"
    then have "item_id item \<in> item_id ` snd ` set (ul_children (renderExtensions c list this))"
      by (simp add: image_comp)
    then obtain x where "x \<in> set list" "item_id x = item_id item" "item_id x \<noteq> runtime_id c"
      "item_type x \<notin> set (excludeType this)"
      unfolding set_rendered_items by auto
    then show False
      using other by simp
  qed
  have disable: "SetEnabled (item_id item) b
               \<notin> set (drop (length (calls this)) (calls (fst (oneKeyDisable c list this))))" for b
    using disable_candidate [of "item_id item" b this c list] other by blast
  have pending: "item_id item \<notin> fst ` set (snd (oneKeyDisable c list this))"
    using disable_candidate [of "item_id item" _ this c list] other by blast
  have restore: "SetEnabled (item_id item) b
               \<notin> set (drop (length (calls this)) (calls (oneKeyRestore c list this)))" for b
    using restore_candidate [of "item_id item" b this c list] other by blast
  show ?thesis
    using rendered disable pending restore by blast
qed

text \<open>
  C5. For every list, each rendered list item stands for an entry of the list that is
  not the popup itself and is not of an excluded type, and redrawing list items on a
  change of state keeps the entries they stand for; each identifier the bulk disable
  asks to disable or gives a callback, and each identifier the bulk restore asks to
  enable, is not the identifier of the popup and is the identifier of an entry that is
  not of an excluded type. So, identifiers of a list from the browser being distinct, an
  entry that is the popup itself or is of an excluded type is in none of them.
\<close>

theorem self_and_excluded_types_left_out:
  "(\<forall>x\<in>snd ` set (ul_children (renderExtensions c list this)).
       x \<in> set list \<and> item_id x \<noteq> runtime_id c \<and> item_type x \<notin> set (excludeType this))
   \<and> (\<forall>ev. map snd (ul_children (toggleExtensionState c ev (renderExtensions c list this)))
             = map snd (ul_children (renderExtensions c list this)))
   \<and> (\<forall>eid b.
         SetEnabled eid b \<in> set (drop (length (calls this)) (calls (fst (oneKeyDisable c list this))))
         \<or> eid \<in> fst ` set (snd (oneKeyDisable c list this))
         \<longrightarrow> (\<exists>x\<in>set list. item_id x = eid \<and> eid \<noteq> runtime_id c
                \<and> item_type x \<notin> set (excludeType this)))
   \<and> (\<forall>eid b.
         SetEnabled eid b \<in> set (drop (length (calls this)) (calls (oneKeyRestore c list this)))
         \<longrightarrow> (\<exists>x\<in>set list. item_id x = eid \<and> eid \<noteq> runtime_id c
                \<and> item_type x \<notin> set (excludeType this)))
   \<and> (distinct (map item_id list) \<longrightarrow>
        (\<forall>item\<in>set list.
           item_id item = runtime_id c \<or> item_type item \<in> set (excludeType this) \<longrightarrow>
             item_id item \<notin> (item_id \<circ> snd) ` set (ul_children (renderExtensions c list this))
             \<and> (\<forall>b. SetEnabled (item_id item) b
                   \<notin> set (drop (length (calls this)) (calls (fst (oneKeyDisable c list this)))))
             \<and> item_id item \<notin> fst ` set (snd (oneKeyDisable c list this))
             \<and> (\<forall>b. SetEnabled (item_id item) b
                   \<notin> set (drop (length (calls this)) (calls (oneKeyRestore c list this))))))"
proof -
  have rendered: "\<forall>x\<in>snd ` set (ul_children (renderExtensions c list this)).
       x \<in> set list \<and> item_id x \<noteq> runtime_id c \<and> item_type x \<notin> set (excludeType this)"
    unfolding set_rendered_items by simp
  have toggled: "\<forall>ev. map snd (ul_children (toggleExtensionState c ev (renderExtensions c list this)))
             = map snd (ul_children (renderExtensions c list this))"
    by (simp add: toggleExtensionState_items)
  have disable: "\<forall>eid b.
         SetEnabled eid b \<in> set (drop (length (calls this)) (calls (fst (oneKeyDisable c list this))))
         \<or> eid \<in> fst ` set (snd (oneKeyDisable c list this))
         \<longrightarrow> (\<exists>x\<in>set list. item_id x = eid \<and> eid \<noteq> runtime_id c
                \<and> item_type x \<notin> set (excludeType this))"
    using disable_candidate [of _ _ this c list] by blast
  have restore: "\<forall>eid b.
         SetEnabled eid b \<in> set (drop (length (calls this)) (calls (oneKeyRestore c list this)))
         \<longrightarrow> (\<exists>x\<in>set list. item_id x = eid \<and> eid \<noteq> runtime_id c
                \<and> item_type x \<notin> set (excludeType this))"
    using restore_candidate [of _ _ this c list] by blast
  have entries: "distinct (map item_id list) \<longrightarrow>
        (\<forall>item\<in>set list.
           item_id item = runtime_id c \<or> item_type item \<in> set (excludeType this) \<longrightarrow>
             item_id item \<notin> (item_id \<circ> snd) ` set (ul_children (renderExtensions c list this))
             \<and> (\<forall>b. SetEnabled (item_id item) b
                   \<notin> set (drop (length (calls this)) (calls (fst (oneKeyDisable c list this)))))
             \<and> item_id item \<notin> fst ` set (snd (oneKeyDisable c list this))
             \<and> (\<forall>b. SetEnabled (item_id item) b
                   \<notin> set (drop (length (calls this)) (calls (oneKeyRestore c list this)))))"
    using excluded_entry_left_out [of list _ c this] by blast
  show ?thesis
    using rendered toggled disable restore entries by (intro conjI)
qed

theorem self_and_excluded_types_left_out_witness:
  "distinct (map item_id sample_list)
   \<and> sample_ext ''t'' ''Theme'' True ''theme'' \<in> set sample_list
   \<and> item_type (sample_ext ''t'' ''Theme'' True ''theme'') \<in> set (excludeType sample_manager)
   \<and> ''t'' \<notin> (item_id \<circ> snd) ` set (ul_children (renderExtensions sample_chrome sample_list sample_manager))
   \<and> (\<forall>b. SetEnabled ''t'' b \<notin> set (calls (fst (oneKeyDisable sample_chrome sample_list sample_manager))))
   \<and> (\<forall>b. SetEnabled ''self'' b \<notin> set (calls (fst (oneKeyDisable sample_chrome sample_list sample_manager))))"
proof -
  have d: "distinct (map item_id sample_list)"
    by (simp add: sample_list_def sample_ext_def)
  have m: "sample_ext ''t'' ''Theme'' True ''theme'' \<in> set sample_list"
    by (simp add: sample_list_def)
  have t: "item_type (sample_ext ''t'' ''Theme'' True ''theme'') \<in> set (excludeType sample_manager)"
    by (simp add: sample_ext_def sample_manager_def ExtensionManager_new_def)
  have i: "item_id (sample_ext ''t'' ''Theme'' True ''theme'') = ''t''"
    by (simp add: sample_ext_def)
  have s: "runtime_id sample_chrome = ''self''"
    by (simp add: sample_chrome_def)
  have z: "drop (length (calls sample_manager)) xs = xs" for xs :: "call list"
    by (simp add: sample_manager_def ExtensionManager_new_def)
  note T = self_and_excluded_types_left_out [of sample_chrome sample_list sample_manager,
      unfolded s z]
  have excluded: "''t'' \<notin> (item_id \<circ> snd) `
        set (ul_children (renderExtensions sample_chrome sample_list sample_manager))
      \<and> (\<forall>b. SetEnabled ''t'' b
             \<notin> set (calls (fst (oneKeyDisable sample_chrome sample_list sample_manager))))"
    using T d m t i by metis
  have self: "\<forall>b. SetEnabled ''self'' b
             \<notin> set (calls (fst (oneKeyDisable sample_chrome sample_list sample_manager)))"
    using T by blast
  show ?thesis
    using d m t excluded self by blast
qed

end
